theory Spec2Isabelle
  imports Complex_Main
begin

section \<open>The dependency analyzer of CodeWeaver (dependency_analyzer.py)\<close>

text \<open>
  The analyzer receives the catalogue of known files (a Python dict from file id to a record
  with the keys path, relative_path and extension), the project root and a list of selected
  file ids. The model follows the source function by function.

  Conventions of the model:
  \<^item> a Python dict is an association list in insertion order (its keys are distinct);
  \<^item> a \<open>pathlib\<close> path of a POSIX system is its anchor (absolute or not) and its
    components; \<open>Path.resolve()\<close> is the lexical normalisation, that is, no component of
    a resolved path is a symbolic link;
  \<^item> a string is a list of characters with code points below 256;
  \<^item> a raised exception is a value \<open>Inl e\<close>;
  \<^item> a Python float is a rational number; \<open>round(x, 2)\<close> rounds half to even;
  \<^item> \<open>list(set(xs))\<close> keeps one copy of every element; the order Python gives
    the copies is not specified, the model keeps the order of \<open>remdups\<close>.
\<close>

subsection \<open>pathlib\<close>

datatype error = ValueError

datatype ppath = PPath (is_abs: bool) (parts: "string list")

fun split_sep :: "char \<Rightarrow> string \<Rightarrow> string list" where
  "split_sep c [] = [[]]"
| "split_sep c (x # xs) =
     (if x = c then [] # split_sep c xs
      else (case split_sep c xs of [] \<Rightarrow> [[x]] | w # ws \<Rightarrow> (x # w) # ws))"

text \<open>\<open>Path(s)\<close>: empty components and \<open>.\<close> components are dropped.\<close>

definition parse_path :: "string \<Rightarrow> ppath" where
  "parse_path s =
     PPath (case s of [] \<Rightarrow> False | c # _ \<Rightarrow> c = CHR ''/'')
           (filter (\<lambda>p. p \<noteq> [] \<and> p \<noteq> ''.'') (split_sep CHR ''/'' s))"

fun join_sep :: "string list \<Rightarrow> string" where
  "join_sep [] = []"
| "join_sep [p] = p"
| "join_sep (p # q # ps) = p @ ''/'' @ join_sep (q # ps)"

text \<open>\<open>str(p)\<close>\<close>

definition str_of :: "ppath \<Rightarrow> string" where
  "str_of p =
     (if is_abs p then ''/'' @ join_sep (parts p)
      else if parts p = [] then ''.'' else join_sep (parts p))"

text \<open>\<open>p.parent\<close> and \<open>p.name\<close>\<close>

definition parent :: "ppath \<Rightarrow> ppath" where
  "parent p = PPath (is_abs p) (butlast (parts p))"

definition name_of :: "ppath \<Rightarrow> string" where
  "name_of p = (if parts p = [] then [] else last (parts p))"

text \<open>\<open>p / q\<close>: an absolute right operand replaces the left one.\<close>

definition joinpath :: "ppath \<Rightarrow> ppath \<Rightarrow> ppath" where
  "joinpath p q = (if is_abs q then q else PPath (is_abs p) (parts p @ parts q))"

fun normalise :: "string list \<Rightarrow> string list \<Rightarrow> string list" where
  "normalise acc [] = acc"
| "normalise acc (p # ps) =
     (if p = ''..'' then normalise (butlast acc) ps else normalise (acc @ [p]) ps)"

text \<open>
  \<open>p.resolve()\<close> for an absolute \<open>p\<close>: \<open>..\<close> removes the component before it and is
  dropped at the root. The analyzer only resolves paths that start with its root
  directory, which the application passes as an absolute path.
\<close>

definition resolve :: "ppath \<Rightarrow> ppath" where
  "resolve p = PPath True (normalise [] (parts p))"

text \<open>
  The stem of a file name: the name without its suffix. A name has a suffix when its last
  dot is neither its first nor its last character.
\<close>

definition stem :: "string \<Rightarrow> string" where
  "stem n =
     (let r = rev n;
          e = takeWhile (\<lambda>c. c \<noteq> CHR ''.'') r;
          d = dropWhile (\<lambda>c. c \<noteq> CHR ''.'') r
      in if d = [] \<or> tl d = [] \<or> e = [] then n else rev (tl d))"

text \<open>\<open>p.with_suffix(ext)\<close> raises ValueError for a path with an empty name.\<close>

definition with_suffix :: "ppath \<Rightarrow> string \<Rightarrow> error + ppath" where
  "with_suffix p ext =
     (if parts p = [] then Inl ValueError
      else Inr (PPath (is_abs p) (butlast (parts p) @ [stem (last (parts p)) @ ext])))"

fun strip_prefix :: "'a list \<Rightarrow> 'a list \<Rightarrow> 'a list option" where
  "strip_prefix [] ys = Some ys"
| "strip_prefix (x # xs) [] = None"
| "strip_prefix (x # xs) (y # ys) = (if x = y then strip_prefix xs ys else None)"

text \<open>\<open>p.relative_to(base)\<close>; \<open>None\<close> is the ValueError that the callers catch.\<close>

definition relative_to :: "ppath \<Rightarrow> ppath \<Rightarrow> ppath option" where
  "relative_to p base =
     (if is_abs p \<noteq> is_abs base then None
      else (case strip_prefix (parts base) (parts p) of
              None \<Rightarrow> None
            | Some rest \<Rightarrow> Some (PPath False rest)))"

subsection \<open>The catalogue and the analyzer\<close>

record file_info =
  path :: string
  relative_path :: string
  extension :: string

type_synonym catalog = "(string \<times> file_info) list"

record digraph =
  g_nodes :: "string list"
  g_edges :: "(string \<times> string) list"

record analyzer =
  all_files :: catalog
  root_dir :: ppath
  dependency_graph :: digraph

text \<open>\<open>DependencyAnalyzer(all_files, root_dir)\<close>\<close>

definition DependencyAnalyzer :: "catalog \<Rightarrow> string \<Rightarrow> analyzer" where
  "DependencyAnalyzer files root_str =
     \<lparr>all_files = files, root_dir = parse_path root_str,
      dependency_graph = \<lparr>g_nodes = [], g_edges = []\<rparr>\<rparr>"

text \<open>\<open>any(f['relative_path'] == s for f in self.all_files.values())\<close>\<close>

definition in_catalog :: "catalog \<Rightarrow> string \<Rightarrow> bool" where
  "in_catalog files s = (s \<in> set (map (\<lambda>kv. relative_path (snd kv)) files))"

subsection \<open>The path resolver\<close>

definition startswith :: "string \<Rightarrow> char \<Rightarrow> bool" where
  "startswith s c = (case s of [] \<Rightarrow> False | x # _ \<Rightarrow> x = c)"

definition extensions_for :: "string \<Rightarrow> string list" where
  "extensions_for file_type =
     (if file_type = ''.py'' then [''.py''] else [''.js'', ''.jsx'', ''.ts'', ''.tsx''])"

text \<open>The first loop of \<open>_resolve_import_path\<close>: \<open>resolved.with_suffix(ext)\<close>.\<close>

fun try_suffixes :: "analyzer \<Rightarrow> ppath \<Rightarrow> string list \<Rightarrow> error + string option" where
  "try_suffixes a resolved [] = Inr None"
| "try_suffixes a resolved (ext # exts) =
     (case with_suffix resolved ext of
        Inl e \<Rightarrow> Inl e
      | Inr candidate \<Rightarrow>
          (case relative_to candidate (root_dir a) of
             None \<Rightarrow> try_suffixes a resolved exts
           | Some rel \<Rightarrow>
               if in_catalog (all_files a) (str_of rel) then Inr (Some (str_of rel))
               else try_suffixes a resolved exts))"

text \<open>The second loop: \<open>resolved / f"index{ext}"\<close>.\<close>

fun try_index :: "analyzer \<Rightarrow> ppath \<Rightarrow> string list \<Rightarrow> string option" where
  "try_index a resolved [] = None"
| "try_index a resolved (ext # exts) =
     (case relative_to (joinpath resolved (parse_path (''index'' @ ext))) (root_dir a) of
        None \<Rightarrow> try_index a resolved exts
      | Some rel \<Rightarrow>
          if in_catalog (all_files a) (str_of rel) then Some (str_of rel)
          else try_index a resolved exts)"

definition resolved_target :: "analyzer \<Rightarrow> ppath \<Rightarrow> string \<Rightarrow> ppath" where
  "resolved_target a current_dir import_path =
     resolve (joinpath (joinpath (root_dir a) current_dir) (parse_path import_path))"

definition resolve_import_path ::
  "analyzer \<Rightarrow> string \<Rightarrow> ppath \<Rightarrow> string \<Rightarrow> error + string option" where
  "resolve_import_path a import_path current_dir file_type =
     (if \<not> startswith import_path CHR ''.'' then Inr None
      else
        let extensions = extensions_for file_type;
            resolved = resolved_target a current_dir import_path
        in (case try_suffixes a resolved extensions of
              Inl e \<Rightarrow> Inl e
            | Inr (Some p) \<Rightarrow> Inr (Some p)
            | Inr None \<Rightarrow> Inr (try_index a resolved extensions)))"

subsection \<open>Import extraction\<close>

text \<open>
  Reading a file and matching its text (the \<open>ast\<close> walk, the regular expressions) is
  outside the model: the analysis takes a scanner that gives, for the file at a path, the
  module names found by the matcher of the file's language and the exported names, each
  in order of occurrence and with repetitions. What the extractors do with the matches
  is modelled.
\<close>

record file_scan =
  found_imports :: "string list"
  found_exports :: "string list"

type_synonym scanner = "string \<Rightarrow> file_scan"

text \<open>The characters below 256 that \<open>str.strip()\<close> removes.\<close>

definition is_space :: "char \<Rightarrow> bool" where
  "is_space c = (of_char c \<in> set [9, 10, 11, 12, 13, 28, 29, 30, 31, 32, 133, 160 :: nat])"

definition strip :: "string \<Rightarrow> string" where
  "strip s = rev (dropWhile is_space (rev (dropWhile is_space s)))"

definition list_of_set :: "'a list \<Rightarrow> 'a list" where
  "list_of_set xs = remdups xs"

definition extract_python_imports :: "string list \<Rightarrow> string list" where
  "extract_python_imports found = list_of_set found"

fun cleaned_imports :: "string list \<Rightarrow> string list" where
  "cleaned_imports [] = []"
| "cleaned_imports (imp # imps) =
     (let imp' = strip imp in
      if startswith imp' CHR ''.'' then imp' # cleaned_imports imps
      else if \<not> startswith imp' CHR ''@'' \<and> CHR ''/'' \<notin> set imp' then cleaned_imports imps
      else imp' # cleaned_imports imps)"

definition extract_javascript_imports :: "string list \<Rightarrow> string list" where
  "extract_javascript_imports found = list_of_set (cleaned_imports found)"

definition extract_imports :: "scanner \<Rightarrow> string \<Rightarrow> string \<Rightarrow> string list" where
  "extract_imports scan file_path ext =
     (if ext = ''.py'' then extract_python_imports (found_imports (scan file_path))
      else if ext \<in> set [''.js'', ''.jsx'', ''.ts'', ''.tsx'']
      then extract_javascript_imports (found_imports (scan file_path))
      else [])"

definition extract_exports :: "scanner \<Rightarrow> string \<Rightarrow> string \<Rightarrow> string list" where
  "extract_exports scan file_path ext = list_of_set (found_exports (scan file_path))"

subsection \<open>Nodes and the graph\<close>

text \<open>The field \<open>imports\<close> of the source is \<open>imports_list\<close> here.\<close>

record DependencyNode =
  file_id :: string
  file_path :: string
  file_type :: string
  imports_list :: "string list"
  exports :: "string list"
  dependencies :: "string list"
  dependents :: "string list"
  is_entry_point :: bool
  is_leaf :: bool

record MissingDependency =
  required_by :: string
  required_by_path :: string
  missing_import :: string
  suggested_file :: "string option"
  confidence :: rat
  reason :: string

type_synonym node_dict = "(string \<times> DependencyNode) list"

text \<open>\<open>d[k] = v\<close> on a dict in insertion order.\<close>

fun dict_set :: "'k \<Rightarrow> 'v \<Rightarrow> ('k \<times> 'v) list \<Rightarrow> ('k \<times> 'v) list" where
  "dict_set k v [] = [(k, v)]"
| "dict_set k v ((k', v') # kvs) =
     (if k = k' then (k, v) # kvs else (k', v') # dict_set k v kvs)"

text \<open>\<open>nx.DiGraph\<close>: \<open>add_node\<close> and \<open>add_edge\<close> add what is not yet there.\<close>

definition add_node :: "string \<Rightarrow> digraph \<Rightarrow> digraph" where
  "add_node v g = (if v \<in> set (g_nodes g) then g else g\<lparr>g_nodes := g_nodes g @ [v]\<rparr>)"

definition add_edge :: "string \<Rightarrow> string \<Rightarrow> digraph \<Rightarrow> digraph" where
  "add_edge u v g =
     (let g' = add_node v (add_node u g)
      in if (u, v) \<in> set (g_edges g') then g' else g'\<lparr>g_edges := g_edges g' @ [(u, v)]\<rparr>)"

text \<open>The node that \<open>analyze_dependencies\<close> makes for a selected file.\<close>

definition new_node :: "scanner \<Rightarrow> string \<Rightarrow> file_info \<Rightarrow> DependencyNode" where
  "new_node scan fid info =
     \<lparr>file_id = fid, file_path = relative_path info, file_type = extension info,
      imports_list = extract_imports scan (path info) (extension info),
      exports = extract_exports scan (path info) (extension info),
      dependencies = [], dependents = [], is_entry_point = False, is_leaf = False\<rparr>"

text \<open>The first loop of \<open>analyze_dependencies\<close>; ids outside the catalogue are skipped.\<close>

fun collect_nodes ::
  "catalog \<Rightarrow> scanner \<Rightarrow> string list \<Rightarrow> node_dict \<times> digraph \<Rightarrow> node_dict \<times> digraph" where
  "collect_nodes files scan [] st = st"
| "collect_nodes files scan (fid # fids) (ns, g) =
     (case map_of files fid of
        None \<Rightarrow> collect_nodes files scan fids (ns, g)
      | Some info \<Rightarrow>
          collect_nodes files scan fids
            (dict_set fid (new_node scan fid info) ns, add_node fid g))"

subsection \<open>The graph builder\<close>

definition file_path_to_id :: "catalog \<Rightarrow> string list \<Rightarrow> (string \<rightharpoonup> string)" where
  "file_path_to_id files selected_files =
     foldl (\<lambda>m fid. case map_of files fid of
                       None \<Rightarrow> m
                     | Some info \<Rightarrow> m(relative_path info \<mapsto> fid))
           Map.empty selected_files"

text \<open>\<open>nodes[fid].dependencies.append(dep)\<close> and \<open>nodes[dep].dependents.append(fid)\<close>\<close>

definition append_dependency :: "string \<Rightarrow> string \<Rightarrow> node_dict \<Rightarrow> node_dict" where
  "append_dependency fid dep ns =
     map (\<lambda>kv. if fst kv = fid
               then (fst kv, (snd kv)\<lparr>dependencies := dependencies (snd kv) @ [dep]\<rparr>)
               else kv) ns"

definition append_dependent :: "string \<Rightarrow> string \<Rightarrow> node_dict \<Rightarrow> node_dict" where
  "append_dependent dep fid ns =
     map (\<lambda>kv. if fst kv = dep
               then (fst kv, (snd kv)\<lparr>dependents := dependents (snd kv) @ [fid]\<rparr>)
               else kv) ns"

fun resolve_imports ::
  "analyzer \<Rightarrow> (string \<rightharpoonup> string) \<Rightarrow> string \<Rightarrow> ppath \<Rightarrow> string \<Rightarrow> string list \<Rightarrow>
   node_dict \<times> digraph \<Rightarrow> error + node_dict \<times> digraph" where
  "resolve_imports a p2i fid current_dir ft [] st = Inr st"
| "resolve_imports a p2i fid current_dir ft (imp # imps) (ns, g) =
     (case resolve_import_path a imp current_dir ft of
        Inl e \<Rightarrow> Inl e
      | Inr None \<Rightarrow> resolve_imports a p2i fid current_dir ft imps (ns, g)
      | Inr (Some resolved_path) \<Rightarrow>
          (case p2i resolved_path of
             None \<Rightarrow> resolve_imports a p2i fid current_dir ft imps (ns, g)
           | Some dep_file_id \<Rightarrow>
               if dep_file_id \<noteq> fid
               then resolve_imports a p2i fid current_dir ft imps
                      (append_dependent dep_file_id fid (append_dependency fid dep_file_id ns),
                       add_edge fid dep_file_id g)
               else resolve_imports a p2i fid current_dir ft imps (ns, g)))"

fun resolve_nodes ::
  "analyzer \<Rightarrow> (string \<rightharpoonup> string) \<Rightarrow> node_dict \<Rightarrow> node_dict \<times> digraph \<Rightarrow>
   error + node_dict \<times> digraph" where
  "resolve_nodes a p2i [] st = Inr st"
| "resolve_nodes a p2i ((fid, node) # items) st =
     (case resolve_imports a p2i fid (parent (parse_path (file_path node))) (file_type node)
             (imports_list node) st of
        Inl e \<Rightarrow> Inl e
      | Inr st' \<Rightarrow> resolve_nodes a p2i items st')"

text \<open>The last loop of \<open>_resolve_dependencies\<close>.\<close>

definition classify :: "node_dict \<Rightarrow> node_dict" where
  "classify ns =
     map (\<lambda>kv. (fst kv, (snd kv)\<lparr>is_entry_point := (length (dependents (snd kv)) = 0),
                                 is_leaf := (length (dependencies (snd kv)) = 0)\<rparr>)) ns"

definition resolve_dependencies ::
  "analyzer \<Rightarrow> node_dict \<Rightarrow> digraph \<Rightarrow> string list \<Rightarrow> error + node_dict \<times> digraph" where
  "resolve_dependencies a ns g selected_files =
     (case resolve_nodes a (file_path_to_id (all_files a) selected_files) ns (ns, g) of
        Inl e \<Rightarrow> Inl e
      | Inr (ns', g') \<Rightarrow> Inr (classify ns', g'))"

subsection \<open>The missing-dependency suggester\<close>

record suggestion =
  s_file_id :: string
  s_confidence :: rat
  s_reason :: string

fun is_prefix :: "'a list \<Rightarrow> 'a list \<Rightarrow> bool" where
  "is_prefix [] ys = True"
| "is_prefix (x # xs) [] = False"
| "is_prefix (x # xs) (y # ys) = (x = y \<and> is_prefix xs ys)"

text \<open>\<open>xs in ys\<close> on strings\<close>

fun is_substring :: "'a list \<Rightarrow> 'a list \<Rightarrow> bool" where
  "is_substring xs [] = (xs = [])"
| "is_substring xs (y # ys) = (is_prefix xs (y # ys) \<or> is_substring xs ys)"

text \<open>The first loop of \<open>_suggest_missing_file\<close>.\<close>

fun exact_match :: "catalog \<Rightarrow> string \<Rightarrow> suggestion option" where
  "exact_match [] missing_path = None"
| "exact_match ((fid, info) # files) missing_path =
     (if relative_path info = missing_path
      then Some \<lparr>s_file_id = fid, s_confidence = 1, s_reason = ''Exact path match found''\<rparr>
      else exact_match files missing_path)"

text \<open>The second loop: one list of candidates for both kinds of match.\<close>

fun candidates :: "catalog \<Rightarrow> string \<Rightarrow> suggestion list" where
  "candidates [] missing_name = []"
| "candidates ((fid, info) # files) missing_name =
     (let file_name = name_of (parse_path (relative_path info)) in
      if file_name = missing_name
      then \<lparr>s_file_id = fid, s_confidence = 8 / 10,
            s_reason = ''Filename matches: '' @ relative_path info\<rparr>
           # candidates files missing_name
      else if is_substring missing_name file_name \<or> is_substring file_name missing_name
      then \<lparr>s_file_id = fid, s_confidence = 5 / 10,
            s_reason = ''Similar filename: '' @ relative_path info\<rparr>
           # candidates files missing_name
      else candidates files missing_name)"

definition suggest_missing_file :: "analyzer \<Rightarrow> string \<Rightarrow> suggestion option" where
  "suggest_missing_file a missing_path =
     (case exact_match (all_files a) missing_path of
        Some s \<Rightarrow> Some s
      | None \<Rightarrow>
          (case candidates (all_files a) (name_of (parse_path missing_path)) of
             [] \<Rightarrow> None
           | c # _ \<Rightarrow> Some c))"

definition selected_paths :: "catalog \<Rightarrow> string list \<Rightarrow> string list" where
  "selected_paths files selected_files =
     List.map_filter (\<lambda>fid. map_option relative_path (map_of files fid)) selected_files"

definition missing_entry :: "analyzer \<Rightarrow> string \<Rightarrow> DependencyNode \<Rightarrow> string \<Rightarrow> string \<Rightarrow>
    MissingDependency" where
  "missing_entry a fid node imp resolved_path =
     (let suggestion = suggest_missing_file a resolved_path in
      \<lparr>required_by = fid, required_by_path = file_path node, missing_import = imp,
       suggested_file = (case suggestion of Some s \<Rightarrow> Some (s_file_id s) | None \<Rightarrow> None),
       confidence = (case suggestion of Some s \<Rightarrow> s_confidence s | None \<Rightarrow> 0),
       reason = (case suggestion of Some s \<Rightarrow> s_reason s | None \<Rightarrow> ''File not found'')\<rparr>)"

text \<open>
  The inner loop of \<open>_find_missing_dependencies\<close>: an entry is made under the condition
  \<open>resolved_path and resolved_path not in selected_paths\<close>. (A resolved path is never the
  empty string.)
\<close>

fun missing_of_imports ::
  "analyzer \<Rightarrow> string list \<Rightarrow> string \<Rightarrow> DependencyNode \<Rightarrow> string list \<Rightarrow>
   error + MissingDependency list" where
  "missing_of_imports a sel fid node [] = Inr []"
| "missing_of_imports a sel fid node (imp # imps) =
     (case resolve_import_path a imp (parent (parse_path (file_path node))) (file_type node) of
        Inl e \<Rightarrow> Inl e
      | Inr r \<Rightarrow>
          (case missing_of_imports a sel fid node imps of
             Inl e \<Rightarrow> Inl e
           | Inr ms \<Rightarrow>
               (case r of
                  None \<Rightarrow> Inr ms
                | Some resolved_path \<Rightarrow>
                    if resolved_path \<notin> set sel
                    then Inr (missing_entry a fid node imp resolved_path # ms)
                    else Inr ms)))"

fun missing_of_nodes ::
  "analyzer \<Rightarrow> string list \<Rightarrow> node_dict \<Rightarrow> error + MissingDependency list" where
  "missing_of_nodes a sel [] = Inr []"
| "missing_of_nodes a sel ((fid, node) # items) =
     (case missing_of_imports a sel fid node (imports_list node) of
        Inl e \<Rightarrow> Inl e
      | Inr ms \<Rightarrow>
          (case missing_of_nodes a sel items of
             Inl e \<Rightarrow> Inl e
           | Inr ms' \<Rightarrow> Inr (ms @ ms')))"

definition find_missing_dependencies ::
  "analyzer \<Rightarrow> node_dict \<Rightarrow> string list \<Rightarrow> error + MissingDependency list" where
  "find_missing_dependencies a ns selected_files =
     missing_of_nodes a (selected_paths (all_files a) selected_files) ns"

subsection \<open>The cycle detector\<close>

text \<open>
  \<open>nx.simple_cycles\<close> is the library's: by its documentation it returns every elementary
  cycle of the graph once, as the list of its nodes, in an order and a rotation that the
  caller cannot rely on. The model is an enumerator with this contract: a cycle is listed
  from its first node in the graph's node order, and found by a depth-first walk through
  the nodes that come later in that order.
\<close>

function walk ::
  "(string \<times> string) list \<Rightarrow> string \<Rightarrow> string list \<Rightarrow> string list \<Rightarrow> string \<Rightarrow>
   string list list" where
  "walk es s allowed trail cur =
     (if (cur, s) \<in> set es then [trail @ [cur]] else []) @
     concat (map (\<lambda>v. walk es s (removeAll v allowed) (trail @ [cur]) v)
                 (filter (\<lambda>v. (cur, v) \<in> set es) allowed))"
  by pat_completeness auto
termination
  apply (relation "measure (\<lambda>(es, s, allowed, trail, cur). length allowed)")
   apply simp
  apply (simp add: length_removeAll_less)
  done

declare walk.simps [simp del]

fun cycles_over :: "(string \<times> string) list \<Rightarrow> string list \<Rightarrow> string list list" where
  "cycles_over es [] = []"
| "cycles_over es (s # vs) = walk es s vs [] s @ cycles_over es vs"

definition simple_cycles :: "digraph \<Rightarrow> string list list" where
  "simple_cycles g = cycles_over (g_edges g) (g_nodes g)"

definition detect_circular_dependencies :: "analyzer \<Rightarrow> string list list" where
  "detect_circular_dependencies a = simple_cycles (dependency_graph a)"

subsection \<open>Metrics\<close>

definition round_half_even :: "rat \<Rightarrow> int" where
  "round_half_even x =
     (let f = \<lfloor>x\<rfloor>; d = x - of_int f
      in if d < 1 / 2 then f else if 1 / 2 < d then f + 1
         else if even f then f else f + 1)"

text \<open>\<open>round(x, 2)\<close>\<close>

definition round2 :: "rat \<Rightarrow> rat" where
  "round2 x = of_int (round_half_even (x * 100)) / 100"

record most_dependent =
  md_file_id :: string
  md_file_path :: string
  md_dependent_count :: nat

record graph_metrics =
  total_files :: nat
  entry_points :: nat
  leaf_nodes :: nat
  average_dependencies :: rat
  max_dependencies :: nat
  most_dependent_file :: "most_dependent option"
  coupling_score :: rat

text \<open>\<open>max(nodes.items(), key=...)\<close>: the first maximum is kept.\<close>

fun max_by_dependents ::
  "string \<times> DependencyNode \<Rightarrow> node_dict \<Rightarrow> string \<times> DependencyNode" where
  "max_by_dependents best [] = best"
| "max_by_dependents best (kv # kvs) =
     max_by_dependents
       (if length (dependents (snd best)) < length (dependents (snd kv)) then kv else best) kvs"

definition calculate_metrics :: "node_dict \<Rightarrow> graph_metrics" where
  "calculate_metrics ns =
     (case ns of
        [] \<Rightarrow> \<lparr>total_files = 0, entry_points = 0, leaf_nodes = 0, average_dependencies = 0,
               max_dependencies = 0, most_dependent_file = None, coupling_score = 0\<rparr>
      | kv # kvs \<Rightarrow>
          let total = length ns;
              dep_counts = map (\<lambda>kv. length (dependencies (snd kv))) ns;
              avg_deps = of_nat (sum_list dep_counts) / of_nat total;
              most = max_by_dependents kv kvs;
              total_possible_deps = int total * (int total - 1);
              actual_deps = sum_list dep_counts;
              score = (if 0 < total_possible_deps
                       then of_nat actual_deps / of_int total_possible_deps * 100 else 0)
          in \<lparr>total_files = total,
              entry_points = length (filter (\<lambda>kv. is_entry_point (snd kv)) ns),
              leaf_nodes = length (filter (\<lambda>kv. is_leaf (snd kv)) ns),
              average_dependencies = round2 avg_deps,
              max_dependencies = fold max dep_counts 0,
              most_dependent_file =
                (if fst most \<noteq> []
                 then Some \<lparr>md_file_id = fst most, md_file_path = file_path (snd most),
                            md_dependent_count = length (dependents (snd most))\<rparr>
                 else None),
              coupling_score = round2 score\<rparr>)"

definition calculate_completeness_score :: "nat \<Rightarrow> nat \<Rightarrow> rat" where
  "calculate_completeness_score selected_count missing_count =
     (if selected_count = 0 then 0
      else round2 (of_nat selected_count / of_nat (selected_count + missing_count) * 100))"

subsection \<open>The analysis\<close>

text \<open>
  The result without its \<open>graph\<close> entry, which repeats the nodes and their dependencies
  for display. The analyzer's graph is part of its state and is returned with the result.
\<close>

record analysis_result =
  nodes :: node_dict
  missing_dependencies :: "MissingDependency list"
  circular_dependencies :: "string list list"
  metrics :: graph_metrics
  completeness_score :: rat

text \<open>\<open>analyze_dependencies\<close> after its first loop, which has collected the nodes.\<close>

fun analyze_nodes ::
  "analyzer \<Rightarrow> string list \<Rightarrow> node_dict \<times> digraph \<Rightarrow> error + analysis_result \<times> analyzer" where
  "analyze_nodes a selected_files (ns0, g0) =
     (case resolve_dependencies a ns0 g0 selected_files of
        Inl e \<Rightarrow> Inl e
      | Inr (ns, g) \<Rightarrow>
          (case find_missing_dependencies a ns selected_files of
             Inl e \<Rightarrow> Inl e
           | Inr missing \<Rightarrow>
               let a' = a\<lparr>dependency_graph := g\<rparr>
               in Inr (\<lparr>nodes = ns, missing_dependencies = missing,
                        circular_dependencies = detect_circular_dependencies a',
                        metrics = calculate_metrics ns,
                        completeness_score =
                          calculate_completeness_score (length selected_files)
                            (length missing)\<rparr>, a')))"

definition analyze_dependencies ::
  "analyzer \<Rightarrow> scanner \<Rightarrow> string list \<Rightarrow> error + analysis_result \<times> analyzer" where
  "analyze_dependencies a scan selected_files =
     analyze_nodes a selected_files
       (collect_nodes (all_files a) scan selected_files ([], dependency_graph a))"

subsection \<open>The resolver's candidates, for comparison\<close>




subsection \<open>Example inputs\<close>


subsection \<open>The suggestion policy, for comparison\<close>





text \<open>
  \<open>DependencyAnalyzer(files, root).analyze_dependencies(selected_files)\<close> on a new
  analyzer, as the application calls it; the result without the analyzer.
\<close>

definition analysis ::
  "catalog \<Rightarrow> string \<Rightarrow> scanner \<Rightarrow> string list \<Rightarrow> error + analysis_result" where
  "analysis files root_str scan selected_files =
     map_sum id fst (analyze_dependencies (DependencyAnalyzer files root_str) scan selected_files)"

definition js_file :: "string \<Rightarrow> file_info" where
  "js_file p = \<lparr>path = ''/proj/'' @ p, relative_path = p, extension = ''.js''\<rparr>"

definition no_scan :: file_scan where
  "no_scan = \<lparr>found_imports = [], found_exports = []\<rparr>"

text \<open>A project with the single file \<open>x.js\<close>, which imports \<open>./nonexistent\<close>.\<close>

definition lonely_files :: catalog where
  "lonely_files = [(''x'', js_file ''x.js'')]"

definition lonely_scan :: scanner where
  "lonely_scan p =
     (if p = ''/proj/x.js'' then no_scan\<lparr>found_imports := [''./nonexistent'']\<rparr> else no_scan)"

text \<open>
  A project with \<open>a.js\<close> and \<open>b.js\<close>; \<open>a.js\<close> imports \<open>./b\<close>, \<open>./b.js\<close> and
  \<open>./b.jsx\<close>, three specifiers that resolve to \<open>b.js\<close>.
\<close>

definition pair_files :: catalog where
  "pair_files = [(''a'', js_file ''a.js''), (''b'', js_file ''b.js'')]"

definition pair_scan :: scanner where
  "pair_scan p =
     (if p = ''/proj/a.js''
      then no_scan\<lparr>found_imports := [''./b'', ''./b.js'', ''./b.jsx'']\<rparr> else no_scan)"

text \<open>
  A project with \<open>b.js\<close> and \<open>c.js\<close>; \<open>b.js\<close> has two import statements for \<open>./c\<close>,
  and only \<open>b.js\<close> is selected.
\<close>

definition twice_files :: catalog where
  "twice_files = [(''b'', js_file ''b.js''), (''c'', js_file ''c.js'')]"

definition twice_scan :: scanner where
  "twice_scan p =
     (if p = ''/proj/b.js'' then no_scan\<lparr>found_imports := [''./c'', ''./c'']\<rparr> else no_scan)"

subsection \<open>Notions for the properties of the graph builder\<close>


text \<open>
  An entry of the node dict after some edge insertions: the same key and the same file,
  with dependencies added from the set \<open>D\<close> only.
\<close>

definition grown :: "string set \<Rightarrow> string \<times> DependencyNode \<Rightarrow> string \<times> DependencyNode \<Rightarrow> bool" where
  "grown D kv kv' \<longleftrightarrow>
     fst kv' = fst kv \<and> file_id (snd kv') = file_id (snd kv) \<and>
     file_path (snd kv') = file_path (snd kv) \<and> file_type (snd kv') = file_type (snd kv) \<and>
     imports_list (snd kv') = imports_list (snd kv) \<and>
     set (dependencies (snd kv')) \<subseteq> set (dependencies (snd kv)) \<union> D"


text \<open>
  What one import of a node contributes to the list of missing dependencies, when the
  resolver returns.
\<close>

definition missing_for ::
  "analyzer \<Rightarrow> string list \<Rightarrow> string \<Rightarrow> DependencyNode \<Rightarrow> string \<Rightarrow> MissingDependency option" where
  "missing_for a sel fid node imp =
     (case resolve_import_path a imp (parent (parse_path (file_path node))) (file_type node) of
        Inr (Some p) \<Rightarrow> if p \<notin> set sel then Some (missing_entry a fid node imp p) else None
      | _ \<Rightarrow> None)"

subsection \<open>Elementary cycles\<close>


subsection \<open>More example inputs\<close>



text \<open>
  The project with \<open>a.js\<close> and \<open>b.js\<close> again, where now \<open>a.js\<close> imports \<open>./b\<close> and
  \<open>./b.js\<close>, and \<open>b.js\<close> imports \<open>./a\<close> and \<open>./a.js\<close>.
\<close>

definition mutual_scan :: scanner where
  "mutual_scan p =
     (if p = ''/proj/a.js'' then no_scan\<lparr>found_imports := [''./b'', ''./b.js'']\<rparr>
      else if p = ''/proj/b.js'' then no_scan\<lparr>found_imports := [''./a'', ''./a.js'']\<rparr>
      else no_scan)"

section \<open>Properties\<close>

subsection \<open>Rounding and the completeness score\<close>



lemma round_half_even_nonneg: "0 \<le> y \<Longrightarrow> 0 \<le> round_half_even y"
  by (auto simp: round_half_even_def Let_def)



lemma round2_nonneg: "0 \<le> x \<Longrightarrow> 0 \<le> round2 x"
  using round_half_even_nonneg [of "x * 100"]
  by (simp add: round2_def)










subsection \<open>The path resolver\<close>










subsection \<open>The missing-dependency suggester\<close>





subsection \<open>The analysis on example projects\<close>

text \<open>
  Claim C1 says that an import that does not resolve gives one entry with no suggestion,
  confidence 0.0 and the reason "File not found". The code makes an entry only for a
  resolved path (\<open>if resolved_path and resolved_path not in selected_paths\<close>), so the
  branch for "File not found" is never taken: the selected file \<open>x.js\<close> imports
  \<open>./nonexistent\<close>, which no catalogue entry matches, and the list of missing
  dependencies is empty.
\<close>

theorem unresolved_import_gives_no_entry:
  "map_sum id missing_dependencies (analysis lonely_files ''/proj'' lonely_scan [''x''])
     = Inr []"
  by code_simp

text \<open>
  Claim C5 says that a dependency is listed once however many imports resolve to it. The
  code appends to the lists for every import that resolves: \<open>a.js\<close> imports \<open>./b\<close> and
  \<open>./b.js\<close>, \<open>b.js\<close> imports \<open>./a\<close> and \<open>./a.js\<close>, and each file is twice a
  dependency and twice a dependent of the other.
\<close>

theorem dependency_listed_per_import:
  "map_sum id
     (\<lambda>r. map (\<lambda>kv. (fst kv, dependencies (snd kv), dependents (snd kv))) (nodes r))
     (analysis pair_files ''/proj'' mutual_scan [''a'', ''b''])
     = Inr [(''a'', [''b'', ''b''], [''b'', ''b'']), (''b'', [''a'', ''a''], [''a'', ''a''])]"
  by code_simp

text \<open>
  Claim C9 says that the coupling score of two or more files lies between 0 and 100. In
  the same project the four entries of the dependency lists are counted against the two
  possible edges, and the score is 200.
\<close>

theorem coupling_score_above_100:
  "map_sum id (\<lambda>r. (total_files (metrics r), coupling_score (metrics r)))
     (analysis pair_files ''/proj'' mutual_scan [''a'', ''b''])
     = Inr (2, 200)"
  by code_simp

text \<open>
  Claim C8 as stated fails: \<open>b.js\<close> has two import statements for \<open>./c\<close>, which
  resolves to the catalogue file \<open>c.js\<close> outside the selection, and the result has one
  entry for \<open>b\<close> and \<open>./c\<close>, not two.
\<close>

theorem repeated_import_counterexample:
  "map_sum id
     (\<lambda>r. length (filter (\<lambda>m. required_by m = ''b'' \<and> missing_import m = ''./c'')
                     (missing_dependencies r)))
     (analysis twice_files ''/proj'' twice_scan [''b''])
     = Inr 1"
  by code_simp

subsection \<open>The steps of the analysis\<close>

lemma analyze_InrD:
  assumes "analyze_dependencies a scan sel = Inr (r, a')"
  obtains ns0 g0 ns g where
    "collect_nodes (all_files a) scan sel ([], dependency_graph a) = (ns0, g0)"
    "resolve_nodes a (file_path_to_id (all_files a) sel) ns0 (ns0, g0) = Inr (ns, g)"
    "nodes r = classify ns"
    "find_missing_dependencies a (classify ns) sel = Inr (missing_dependencies r)"
    "a' = a\<lparr>dependency_graph := g\<rparr>"
    "circular_dependencies r = simple_cycles g"
    "metrics r = calculate_metrics (classify ns)"
    "completeness_score r =
       calculate_completeness_score (length sel) (length (missing_dependencies r))"
proof -
  obtain ns0 g0 where c: "collect_nodes (all_files a) scan sel ([], dependency_graph a) = (ns0, g0)"
    by (cases "collect_nodes (all_files a) scan sel ([], dependency_graph a)")
  from assms c have an: "analyze_nodes a sel (ns0, g0) = Inr (r, a')"
    by (simp add: analyze_dependencies_def)
  then obtain ns g where
    rn: "resolve_nodes a (file_path_to_id (all_files a) sel) ns0 (ns0, g0) = Inr (ns, g)"
    by (auto simp: resolve_dependencies_def split: sum.splits prod.splits)
  from an rn obtain ms where
    fm: "find_missing_dependencies a (classify ns) sel = Inr ms"
    by (auto simp: resolve_dependencies_def split: sum.splits prod.splits)
  from an rn fm have
    "r = \<lparr>nodes = classify ns, missing_dependencies = ms,
          circular_dependencies = detect_circular_dependencies (a\<lparr>dependency_graph := g\<rparr>),
          metrics = calculate_metrics (classify ns),
          completeness_score = calculate_completeness_score (length sel) (length ms)\<rparr>"
    and "a' = a\<lparr>dependency_graph := g\<rparr>"
    by (auto simp: resolve_dependencies_def Let_def split: sum.splits prod.splits)
  with c rn fm that show thesis
    by (simp add: detect_circular_dependencies_def)
qed

lemma sum_is_Inr: "(case x of Inl _ \<Rightarrow> False | Inr _ \<Rightarrow> True) \<Longrightarrow> \<exists>y. x = Inr y"
  by (cases x) simp_all

text \<open>
  Claim C6. In every result of the analysis a node is an entry point exactly when its list
  of dependents is empty and a leaf exactly when its list of dependencies is empty: the
  result's nodes are the classified nodes, and the classification is the last step of
  \<open>_resolve_dependencies\<close>, after the loop that inserts the edges of all nodes.
\<close>

theorem flags_match_final_edges:
  assumes "analyze_dependencies a scan selected_files = Inr (r, a')"
  shows "\<forall>kv \<in> set (nodes r).
           (is_entry_point (snd kv) \<longleftrightarrow> dependents (snd kv) = []) \<and>
           (is_leaf (snd kv) \<longleftrightarrow> dependencies (snd kv) = [])"
proof -
  from assms obtain ns where "nodes r = classify ns"
    by (rule analyze_InrD)
  then show ?thesis
    by (auto simp: classify_def)
qed

theorem flags_match_final_edges_witness:
  "\<exists>r a'. analyze_dependencies (DependencyAnalyzer pair_files ''/proj'') pair_scan [''a'', ''b'']
             = Inr (r, a') \<and>
     map (\<lambda>kv. (fst kv, is_entry_point (snd kv), is_leaf (snd kv))) (nodes r)
       = [(''a'', True, False), (''b'', False, True)] \<and>
     list_all (\<lambda>kv. (is_entry_point (snd kv) \<longleftrightarrow> dependents (snd kv) = []) \<and>
                    (is_leaf (snd kv) \<longleftrightarrow> dependencies (snd kv) = [])) (nodes r)"
proof -
  let ?x = "analyze_dependencies (DependencyAnalyzer pair_files ''/proj'') pair_scan [''a'', ''b'']"
  have "case ?x of Inl _ \<Rightarrow> False | Inr _ \<Rightarrow> True"
    by code_simp
  then obtain r a' where x: "?x = Inr (r, a')"
    using sum_is_Inr by fastforce
  have "map_sum id (\<lambda>ra. map (\<lambda>kv. (fst kv, is_entry_point (snd kv), is_leaf (snd kv)))
                            (nodes (fst ra))) ?x
          = Inr [(''a'', True, False), (''b'', False, True)]"
    by code_simp
  with x have m: "map (\<lambda>kv. (fst kv, is_entry_point (snd kv), is_leaf (snd kv))) (nodes r)
       = [(''a'', True, False), (''b'', False, True)]"
    by simp
  from flags_match_final_edges [OF x] m x show ?thesis
    by (auto simp: list_all_iff)
qed

subsection \<open>Collecting the nodes\<close>

lemma dict_set_keys: "fst ` set (dict_set k v kvs) = insert k (fst ` set kvs)"
  by (induction k v kvs rule: dict_set.induct) auto

lemma dict_set_distinct: "distinct (map fst kvs) \<Longrightarrow> distinct (map fst (dict_set k v kvs))"
proof (induction kvs)
  case Nil
  then show ?case by simp
next
  case (Cons kv kvs)
  obtain k' v' where kv: "kv = (k', v')" by (cases kv)
  from Cons show ?case
    by (auto simp: kv dict_set_keys)
qed

lemma dict_set_mem:
  "(k', v') \<in> set (dict_set k v kvs) \<Longrightarrow> (k' = k \<and> v' = v) \<or> (k', v') \<in> set kvs"
  by (induction kvs) (auto split: if_splits)

lemma dict_set_new: "(k, v) \<in> set (dict_set k v kvs)"
  by (induction kvs) auto

lemma dict_set_other: "k' \<noteq> k \<Longrightarrow> (k', v') \<in> set kvs \<Longrightarrow> (k', v') \<in> set (dict_set k v kvs)"
  by (induction kvs) auto

lemma collect_nodes_distinct:
  "collect_nodes files scan sel (ns, g) = (ns', g') \<Longrightarrow> distinct (map fst ns) \<Longrightarrow>
   distinct (map fst ns')"
  by (induction files scan sel "(ns, g)" arbitrary: ns g rule: collect_nodes.induct)
     (auto simp: dict_set_distinct split: option.splits)

lemma collect_nodes_mem:
  "collect_nodes files scan sel (ns, g) = (ns', g') \<Longrightarrow> (k, n) \<in> set ns' \<Longrightarrow>
   (k, n) \<in> set ns \<or>
   (\<exists>info. k \<in> set sel \<and> map_of files k = Some info \<and> n = new_node scan k info)"
proof (induction files scan sel "(ns, g)" arbitrary: ns g rule: collect_nodes.induct)
  case (1 files scan st)
  then show ?case by simp
next
  case (2 files scan fid fids ns g)
  show ?case
  proof (cases "map_of files fid")
    case None
    with 2 show ?thesis by auto
  next
    case (Some info)
    with 2 have "(k, n) \<in> set (dict_set fid (new_node scan fid info) ns) \<or>
      (\<exists>info. k \<in> set fids \<and> map_of files k = Some info \<and> n = new_node scan k info)"
      by simp
    with Some show ?thesis
      by (auto dest: dict_set_mem)
  qed
qed

lemma collect_nodes_has:
  "collect_nodes files scan sel (ns, g) = (ns', g') \<Longrightarrow> map_of files k = Some info \<Longrightarrow>
   k \<in> set sel \<or> (k, new_node scan k info) \<in> set ns \<Longrightarrow>
   (k, new_node scan k info) \<in> set ns'"
proof (induction files scan sel "(ns, g)" arbitrary: ns g rule: collect_nodes.induct)
  case (1 files scan st)
  then show ?case by simp
next
  case (2 files scan fid fids ns g)
  show ?case
  proof (cases "map_of files fid")
    case None
    with 2 show ?thesis by auto
  next
    case (Some info')
    have "k \<in> set fids \<or> (k, new_node scan k info) \<in> set (dict_set fid (new_node scan fid info') ns)"
    proof (cases "k = fid")
      case True
      with Some 2 show ?thesis by (simp add: dict_set_new)
    next
      case False
      with 2 show ?thesis by (auto intro: dict_set_other)
    qed
    with 2 Some show ?thesis by simp
  qed
qed

lemma add_node_nodes [simp]: "set (g_nodes (add_node v g)) = insert v (set (g_nodes g))"
  by (auto simp: add_node_def)

lemma add_node_distinct [simp]: "distinct (g_nodes g) \<Longrightarrow> distinct (g_nodes (add_node v g))"
  by (simp add: add_node_def)

lemma add_node_edges [simp]: "g_edges (add_node v g) = g_edges g"
  by (simp add: add_node_def)



subsection \<open>Inserting the edges\<close>

lemma grown_refl: "list_all2 (grown D) ns ns"
  by (simp add: list_all2_refl grown_def)

lemma grown_trans:
  "list_all2 (grown D) ns ns' \<Longrightarrow> list_all2 (grown D) ns' ns'' \<Longrightarrow> list_all2 (grown D) ns ns''"
proof -
  assume a: "list_all2 (grown D) ns ns'" and b: "list_all2 (grown D) ns' ns''"
  have "\<And>x y z. grown D x y \<Longrightarrow> grown D y z \<Longrightarrow> grown D x z"
    by (auto simp: grown_def)
  from list_all2_trans [OF this a b] show ?thesis .
qed

lemma grown_append_dependency:
  "dep \<in> D \<Longrightarrow> list_all2 (grown D) ns (append_dependency fid dep ns)"
  by (auto simp: append_dependency_def list_all2_map2 grown_def intro!: list_all2_refl)

lemma grown_append_dependent: "list_all2 (grown D) ns (append_dependent dep fid ns)"
  by (auto simp: append_dependent_def list_all2_map2 grown_def intro!: list_all2_refl)

lemma grown_classify: "list_all2 (grown D) ns (classify ns)"
  by (auto simp: classify_def list_all2_map2 grown_def intro!: list_all2_refl)

lemma grown_keys: "list_all2 (grown D) ns ns' \<Longrightarrow> map fst ns' = map fst ns"
  by (induction rule: list_all2_induct) (auto simp: grown_def)

lemma grown_mem:
  "list_all2 (grown D) ns ns' \<Longrightarrow> kv' \<in> set ns' \<Longrightarrow> \<exists>kv \<in> set ns. grown D kv kv'"
  by (induction rule: list_all2_induct) auto

lemma resolve_imports_grown:
  "resolve_imports a p2i fid d ft imps (ns, g) = Inr (ns', g') \<Longrightarrow> ran p2i \<subseteq> D \<Longrightarrow>
   list_all2 (grown D) ns ns'"
proof (induction a p2i fid d ft imps "(ns, g)" arbitrary: ns g
       rule: resolve_imports.induct)
  case (1 a p2i fid d ft st)
  then show ?case by (simp add: grown_refl)
next
  case (2 a p2i fid d ft imp imps ns g)
  show ?case
  proof (cases "resolve_import_path a imp d ft")
    case (Inl e)
    with 2(5) show ?thesis by simp
  next
    case (Inr res)
    show ?thesis
    proof (cases res)
      case None
      with 2 Inr show ?thesis by simp
    next
      case (Some rp)
      show ?thesis
      proof (cases "p2i rp")
        case None
        with 2 Inr Some show ?thesis by simp
      next
        case dep: (Some dep)
        show ?thesis
        proof (cases "dep = fid")
          case True
          with 2 Inr Some dep show ?thesis by simp
        next
          case False
          let ?ns = "append_dependent dep fid (append_dependency fid dep ns)"
          from dep 2(6) have "dep \<in> D"
            by (auto simp: ran_def)
          then have a: "list_all2 (grown D) ns ?ns"
            by (blast intro: grown_trans grown_append_dependency grown_append_dependent)
          from 2(5) Inr Some dep False
          have "resolve_imports a p2i fid d ft imps (?ns, add_edge fid dep g) = Inr (ns', g')"
            by simp
          from 2(3) [OF Inr Some dep False this 2(6)] a show ?thesis
            by (rule grown_trans [rotated])
        qed
      qed
    qed
  qed
qed

lemma resolve_nodes_grown:
  "resolve_nodes a p2i items (ns, g) = Inr (ns', g') \<Longrightarrow> ran p2i \<subseteq> D \<Longrightarrow>
   list_all2 (grown D) ns ns'"
proof (induction items arbitrary: ns g)
  case Nil
  then show ?case by (simp add: grown_refl)
next
  case (Cons item items)
  obtain fid node where item: "item = (fid, node)" by (cases item)
  from Cons(2) item obtain ns1 g1 where
    s1: "resolve_imports a p2i fid (parent (parse_path (file_path node))) (file_type node)
           (imports_list node) (ns, g) = Inr (ns1, g1)"
    and s2: "resolve_nodes a p2i items (ns1, g1) = Inr (ns', g')"
    by (auto split: sum.splits)
  from resolve_imports_grown [OF s1 Cons(3)] Cons(1) [OF s2 Cons(3)] show ?case
    by (rule grown_trans)
qed

lemma file_path_to_id_ran_aux:
  "ran (foldl (\<lambda>m fid. case map_of files fid of None \<Rightarrow> m
                        | Some info \<Rightarrow> m(relative_path info \<mapsto> fid)) m sel)
     \<subseteq> ran m \<union> {k \<in> set sel. map_of files k \<noteq> None}"
proof (induction sel arbitrary: m)
  case Nil
  then show ?case by simp
next
  case (Cons fid sel)
  show ?case
  proof (cases "map_of files fid")
    case None
    with Cons [of m] show ?thesis by auto
  next
    case (Some info)
    let ?f = "\<lambda>m fid. case map_of files fid of None \<Rightarrow> m
                        | Some info \<Rightarrow> m(relative_path info \<mapsto> fid)"
    let ?m = "m(relative_path info \<mapsto> fid)"
    have sub: "ran ?m \<subseteq> insert fid (ran m)"
      by (auto simp: ran_def)
    have step: "foldl ?f m (fid # sel) = foldl ?f ?m sel"
      using Some by simp
    have "ran (foldl ?f ?m sel) \<subseteq> ran ?m \<union> {k \<in> set sel. map_of files k \<noteq> None}"
      by (rule Cons)
    with sub have "ran (foldl ?f ?m sel)
        \<subseteq> ran m \<union> {k \<in> set (fid # sel). map_of files k \<noteq> None}"
      using Some by auto
    then show ?thesis
      unfolding step .
  qed
qed

lemma file_path_to_id_ran:
  "ran (file_path_to_id files sel) \<subseteq> {k \<in> set sel. map_of files k \<noteq> None}"
  using file_path_to_id_ran_aux [of files Map.empty sel]
  by (simp add: file_path_to_id_def)

lemma file_path_to_id_dom_aux:
  "dom (foldl (\<lambda>m fid. case map_of files fid of None \<Rightarrow> m
                        | Some info \<Rightarrow> m(relative_path info \<mapsto> fid)) m sel)
     = dom m \<union> set (selected_paths files sel)"
proof (induction sel arbitrary: m)
  case Nil
  then show ?case by (simp add: selected_paths_def List.map_filter_simps)
next
  case (Cons fid sel)
  show ?case
  proof (cases "map_of files fid")
    case None
    with Cons [of m] show ?thesis
      by (simp add: selected_paths_def List.map_filter_simps)
  next
    case (Some info)
    let ?f = "\<lambda>m fid. case map_of files fid of None \<Rightarrow> m
                        | Some info \<Rightarrow> m(relative_path info \<mapsto> fid)"
    let ?m = "m(relative_path info \<mapsto> fid)"
    have step: "foldl ?f m (fid # sel) = foldl ?f ?m sel"
      using Some by simp
    have sp: "set (selected_paths files (fid # sel))
                = insert (relative_path info) (set (selected_paths files sel))"
      using Some by (simp add: selected_paths_def List.map_filter_simps)
    have "dom (foldl ?f ?m sel) = dom ?m \<union> set (selected_paths files sel)"
      by (rule Cons)
    then have "dom (foldl ?f ?m sel) = dom m \<union> set (selected_paths files (fid # sel))"
      unfolding sp by auto
    then show ?thesis
      unfolding step .
  qed
qed

lemma file_path_to_id_dom:
  "dom (file_path_to_id files sel) = set (selected_paths files sel)"
  using file_path_to_id_dom_aux [of files Map.empty sel]
  by (simp add: file_path_to_id_def)

lemma selected_paths_mem:
  "p \<in> set (selected_paths files sel) \<longleftrightarrow>
     (\<exists>fid info. fid \<in> set sel \<and> map_of files fid = Some info \<and> relative_path info = p)"
  by (force simp: selected_paths_def List.map_filter_def)

subsection \<open>The list of missing dependencies\<close>

lemma missing_of_imports_eq:
  "missing_of_imports a sel fid node imps = Inr ms \<Longrightarrow>
   ms = List.map_filter (missing_for a sel fid node) imps"
proof (induction imps arbitrary: ms)
  case Nil
  then show ?case by (simp add: List.map_filter_simps)
next
  case (Cons imp imps)
  from Cons(2) obtain res ms' where
    r: "resolve_import_path a imp (parent (parse_path (file_path node))) (file_type node)
          = Inr res"
    and m: "missing_of_imports a sel fid node imps = Inr ms'"
    by (auto split: sum.splits)
  from Cons(1) [OF m] Cons(2) r m show ?case
    by (auto simp: List.map_filter_simps missing_for_def split: option.splits if_splits)
qed

lemma missing_of_nodes_eq:
  "missing_of_nodes a sel ns = Inr ms \<Longrightarrow>
   ms = concat (map (\<lambda>kv. List.map_filter (missing_for a sel (fst kv) (snd kv))
                            (imports_list (snd kv))) ns)"
proof (induction ns arbitrary: ms)
  case Nil
  then show ?case by simp
next
  case (Cons kv ns)
  obtain fid node where kv: "kv = (fid, node)" by (cases kv)
  from Cons(2) kv obtain ms1 ms2 where
    a: "missing_of_imports a sel fid node (imports_list node) = Inr ms1"
    and b: "missing_of_nodes a sel ns = Inr ms2" and c: "ms = ms1 @ ms2"
    by (auto split: sum.splits)
  from missing_of_imports_eq [OF a] Cons(1) [OF b] c kv show ?case
    by simp
qed

lemma missing_for_fields:
  "missing_for a sel fid node imp = Some e \<Longrightarrow> required_by e = fid \<and> missing_import e = imp"
  by (auto simp: missing_for_def missing_entry_def Let_def split: sum.splits option.splits if_splits)

lemma filter_map_filter_other:
  "imp \<notin> set imps \<or> k \<noteq> fid \<Longrightarrow>
   filter (\<lambda>m. required_by m = fid \<and> missing_import m = imp)
     (List.map_filter (missing_for a sel k node) imps) = []"
  by (induction imps)
     (auto simp: List.map_filter_simps split: option.splits dest: missing_for_fields)

lemma filter_map_filter_one:
  "distinct imps \<Longrightarrow> imp \<in> set imps \<Longrightarrow>
   filter (\<lambda>m. required_by m = fid \<and> missing_import m = imp)
     (List.map_filter (missing_for a sel fid node) imps)
     = (case missing_for a sel fid node imp of None \<Rightarrow> [] | Some e \<Rightarrow> [e])"
proof (induction imps)
  case Nil
  then show ?case by simp
next
  case (Cons i imps)
  show ?case
  proof (cases "i = imp")
    case True
    with Cons(2) have "imp \<notin> set imps" by simp
    then have "filter (\<lambda>m. required_by m = fid \<and> missing_import m = imp)
        (List.map_filter (missing_for a sel fid node) imps) = []"
      by (simp add: filter_map_filter_other)
    with True show ?thesis
      by (auto simp: List.map_filter_simps split: option.splits dest: missing_for_fields)
  next
    case False
    with Cons have "filter (\<lambda>m. required_by m = fid \<and> missing_import m = imp)
        (List.map_filter (missing_for a sel fid node) imps)
        = (case missing_for a sel fid node imp of None \<Rightarrow> [] | Some e \<Rightarrow> [e])"
      by simp
    with False show ?thesis
      by (auto simp: List.map_filter_simps split: option.splits dest: missing_for_fields)
  qed
qed

lemma concat_single_key:
  "distinct (map fst ns) \<Longrightarrow> (fid, node) \<in> set ns \<Longrightarrow>
   (\<And>kv. kv \<in> set ns \<Longrightarrow> fst kv \<noteq> fid \<Longrightarrow> G kv = []) \<Longrightarrow>
   concat (map G ns) = G (fid, node)"
proof (induction ns)
  case Nil
  then show ?case by simp
next
  case (Cons kv ns)
  show ?case
  proof (cases "kv = (fid, node)")
    case True
    with Cons(2) have "\<And>kv'. kv' \<in> set ns \<Longrightarrow> fst kv' \<noteq> fid"
      by force
    with Cons(4) have "\<And>kv'. kv' \<in> set ns \<Longrightarrow> G kv' = []"
      by simp
    then have "concat (map G ns) = []"
      by simp
    with True show ?thesis by simp
  next
    case False
    with Cons(3) have mem: "(fid, node) \<in> set ns"
      by simp
    then have "fid \<in> fst ` set ns"
      by force
    with Cons(2) have ne: "fst kv \<noteq> fid"
      by auto
    from Cons(4) [of kv] ne have "G kv = []" by simp
    moreover from Cons(1) [OF _ mem] Cons(2,4) have "concat (map G ns) = G (fid, node)"
      by simp
    ultimately show ?thesis by simp
  qed
qed

lemma missing_entries_of_import:
  assumes "missing_of_nodes a sel ns = Inr ms"
    and "distinct (map fst ns)" and "(fid, node) \<in> set ns"
    and "distinct (imports_list node)" and "imp \<in> set (imports_list node)"
  shows "filter (\<lambda>m. required_by m = fid \<and> missing_import m = imp) ms
           = (case missing_for a sel fid node imp of None \<Rightarrow> [] | Some e \<Rightarrow> [e])"
proof -
  let ?P = "\<lambda>m. required_by m = fid \<and> missing_import m = imp"
  let ?G = "\<lambda>kv. filter ?P (List.map_filter (missing_for a sel (fst kv) (snd kv))
                              (imports_list (snd kv)))"
  have "filter ?P ms = concat (map ?G ns)"
    unfolding missing_of_nodes_eq [OF assms(1)]
    by (simp add: filter_concat comp_def)
  also have "\<dots> = ?G (fid, node)"
    using assms(2,3) by (rule concat_single_key) (simp add: filter_map_filter_other)
  also have "\<dots> = (case missing_for a sel fid node imp of None \<Rightarrow> [] | Some e \<Rightarrow> [e])"
    using assms(4,5) by (simp add: filter_map_filter_one)
  finally show ?thesis .
qed

lemma exact_match_unique:
  "distinct (map (\<lambda>kv. relative_path (snd kv)) files) \<Longrightarrow> (tid, tinfo) \<in> set files \<Longrightarrow>
   exact_match files (relative_path tinfo)
     = Some \<lparr>s_file_id = tid, s_confidence = 1, s_reason = ''Exact path match found''\<rparr>"
  by (induction files "relative_path tinfo" rule: exact_match.induct) force+

lemma unselected_path:
  assumes "distinct (map (\<lambda>kv. relative_path (snd kv)) files)"
    and "(tid, tinfo) \<in> set files" and "tid \<notin> set sel"
  shows "relative_path tinfo \<notin> set (selected_paths files sel)"
proof
  assume "relative_path tinfo \<in> set (selected_paths files sel)"
  then obtain fid info where f: "fid \<in> set sel" "map_of files fid = Some info"
    "relative_path info = relative_path tinfo"
    by (auto simp: selected_paths_mem)
  then have mem: "(fid, info) \<in> set files"
    by (auto dest: map_of_SomeD)
  from assms(1) have "inj_on (\<lambda>kv. relative_path (snd kv)) (set files)"
    by (simp add: distinct_map)
  from inj_onD [OF this _ mem assms(2)] f(3) have "(fid, info) = (tid, tinfo)"
    by simp
  with f(1) assms(3) show False by simp
qed

lemma extract_imports_distinct: "distinct (extract_imports scan p ext)"
  by (simp add: extract_imports_def extract_python_imports_def
        extract_javascript_imports_def list_of_set_def)

lemma result_nodes:
  assumes "analyze_dependencies a scan sel = Inr (r, a')"
  shows "distinct (map fst (nodes r))"
    and "(k, n) \<in> set (nodes r) \<Longrightarrow>
         \<exists>info. k \<in> set sel \<and> map_of (all_files a) k = Some info \<and>
           file_id n = k \<and> file_path n = relative_path info \<and>
           file_type n = extension info \<and>
           imports_list n = extract_imports scan (path info) (extension info) \<and>
           set (dependencies n) \<subseteq> set sel"
    and "k \<in> set sel \<Longrightarrow> map_of (all_files a) k = Some info \<Longrightarrow>
         \<exists>n. (k, n) \<in> set (nodes r)"
proof -
  from assms obtain ns0 g0 ns g where
    c: "collect_nodes (all_files a) scan sel ([], dependency_graph a) = (ns0, g0)"
    and rn: "resolve_nodes a (file_path_to_id (all_files a) sel) ns0 (ns0, g0) = Inr (ns, g)"
    and nr: "nodes r = classify ns"
    by (rule analyze_InrD)
  let ?D = "set sel"
  have "ran (file_path_to_id (all_files a) sel) \<subseteq> ?D"
    using file_path_to_id_ran [of "all_files a" sel] by auto
  from resolve_nodes_grown [OF rn this] have "list_all2 (grown ?D) ns0 ns" .
  then have gr: "list_all2 (grown ?D) ns0 (nodes r)"
    unfolding nr by (rule grown_trans) (rule grown_classify)
  have d0: "distinct (map fst ns0)"
    using collect_nodes_distinct [OF c] by simp
  with grown_keys [OF gr] show "distinct (map fst (nodes r))"
    by simp
  {
    assume "(k, n) \<in> set (nodes r)"
    with grown_mem [OF gr] obtain kv where kv: "kv \<in> set ns0" "grown ?D kv (k, n)"
      by blast
    obtain k0 n0 where kv0: "kv = (k0, n0)" by (cases kv)
    with kv have k0: "k0 = k" by (simp add: grown_def)
    from collect_nodes_mem [OF c] kv(1) kv0 k0 obtain info where
      i: "k \<in> set sel" "map_of (all_files a) k = Some info" "n0 = new_node scan k info"
      by auto
    with kv(2) kv0 show "\<exists>info. k \<in> set sel \<and> map_of (all_files a) k = Some info \<and>
           file_id n = k \<and> file_path n = relative_path info \<and>
           file_type n = extension info \<and>
           imports_list n = extract_imports scan (path info) (extension info) \<and>
           set (dependencies n) \<subseteq> set sel"
      by (auto simp: grown_def new_node_def)
  }
  {
    assume "k \<in> set sel" "map_of (all_files a) k = Some info"
    with collect_nodes_has [OF c] have "(k, new_node scan k info) \<in> set ns0"
      by simp
    then have "k \<in> set (map fst ns0)" by force
    with grown_keys [OF gr] have "k \<in> set (map fst (nodes r))" by simp
    then show "\<exists>n. (k, n) \<in> set (nodes r)" by auto
  }
qed

lemma missing_for_unselected:
  assumes "distinct (map (\<lambda>kv. relative_path (snd kv)) (all_files a))"
    and "(tid, tinfo) \<in> set (all_files a)" and "tid \<notin> set sel"
    and "resolve_import_path a imp (parent (parse_path (file_path node))) (file_type node)
           = Inr (Some (relative_path tinfo))"
  shows "missing_for a (selected_paths (all_files a) sel) fid node imp
           = Some \<lparr>required_by = fid, required_by_path = file_path node, missing_import = imp,
                   suggested_file = Some tid, confidence = 1,
                   reason = ''Exact path match found''\<rparr>"
  using unselected_path [OF assms(1-3)] assms(4) exact_match_unique [OF assms(1,2)]
  by (simp add: missing_for_def missing_entry_def suggest_missing_file_def)

lemma out_of_selection_entries:
  assumes "analyze_dependencies a scan sel = Inr (r, a')"
    and "distinct (map (\<lambda>kv. relative_path (snd kv)) (all_files a))"
    and "(fid, node) \<in> set (nodes r)"
    and "imp \<in> set (imports_list node)"
    and "(tid, tinfo) \<in> set (all_files a)"
    and "tid \<notin> set sel"
    and "resolve_import_path a imp (parent (parse_path (file_path node))) (file_type node)
           = Inr (Some (relative_path tinfo))"
  shows "filter (\<lambda>m. required_by m = fid \<and> missing_import m = imp) (missing_dependencies r)
           = [\<lparr>required_by = fid, required_by_path = file_path node, missing_import = imp,
                suggested_file = Some tid, confidence = 1,
                reason = ''Exact path match found''\<rparr>]"
proof -
  from assms(1) obtain ns where
    "nodes r = classify ns"
    "find_missing_dependencies a (classify ns) sel = Inr (missing_dependencies r)"
    by (rule analyze_InrD)
  then have m: "missing_of_nodes a (selected_paths (all_files a) sel) (nodes r)
                  = Inr (missing_dependencies r)"
    by (simp add: find_missing_dependencies_def)
  from result_nodes(2) [OF assms(1,3)] have "distinct (imports_list node)"
    by (auto simp: extract_imports_distinct)
  from missing_entries_of_import [OF m result_nodes(1) [OF assms(1)] assms(3) this assms(4)]
    missing_for_unselected [OF assms(2,5,6,7)]
  show ?thesis by simp
qed

text \<open>
  Claim C2. Let the catalogue have no two entries with the same relative path. When an
  import of a node of the result resolves to the relative path of a catalogue file that
  is not selected, the list of missing dependencies has exactly one entry for this node
  and import; it suggests that file with confidence 1.0 and the reason "Exact path match
  found"; and that file is a dependency of no node.
\<close>

theorem out_of_selection_import:
  assumes "analyze_dependencies a scan selected_files = Inr (r, a')"
    and "distinct (map (\<lambda>kv. relative_path (snd kv)) (all_files a))"
    and "(fid, node) \<in> set (nodes r)"
    and "imp \<in> set (imports_list node)"
    and "(tid, tinfo) \<in> set (all_files a)"
    and "tid \<notin> set selected_files"
    and "resolve_import_path a imp (parent (parse_path (file_path node))) (file_type node)
           = Inr (Some (relative_path tinfo))"
  shows "filter (\<lambda>m. required_by m = fid \<and> missing_import m = imp) (missing_dependencies r)
           = [\<lparr>required_by = fid, required_by_path = file_path node, missing_import = imp,
                suggested_file = Some tid, confidence = 1,
                reason = ''Exact path match found''\<rparr>] \<and>
         (\<forall>kv \<in> set (nodes r). tid \<notin> set (dependencies (snd kv)))"
proof
  show "filter (\<lambda>m. required_by m = fid \<and> missing_import m = imp) (missing_dependencies r)
           = [\<lparr>required_by = fid, required_by_path = file_path node, missing_import = imp,
                suggested_file = Some tid, confidence = 1,
                reason = ''Exact path match found''\<rparr>]"
    using assms by (rule out_of_selection_entries)
  show "\<forall>kv \<in> set (nodes r). tid \<notin> set (dependencies (snd kv))"
  proof
    fix kv assume "kv \<in> set (nodes r)"
    then have "(fst kv, snd kv) \<in> set (nodes r)" by simp
    from result_nodes(2) [OF assms(1) this] have "set (dependencies (snd kv)) \<subseteq> set selected_files"
      by blast
    with assms(6) show "tid \<notin> set (dependencies (snd kv))" by blast
  qed
qed

theorem out_of_selection_import_witness:
  "\<exists>r a'. analyze_dependencies (DependencyAnalyzer twice_files ''/proj'') twice_scan [''b'']
             = Inr (r, a') \<and>
     filter (\<lambda>m. required_by m = ''b'' \<and> missing_import m = ''./c'') (missing_dependencies r)
       = [\<lparr>required_by = ''b'', required_by_path = ''b.js'', missing_import = ''./c'',
            suggested_file = Some ''c'', confidence = 1,
            reason = ''Exact path match found''\<rparr>] \<and>
     list_all (\<lambda>kv. ''c'' \<notin> set (dependencies (snd kv))) (nodes r)"
proof -
  let ?a = "DependencyAnalyzer twice_files ''/proj''"
  let ?x = "analyze_dependencies ?a twice_scan [''b'']"
  let ?n = "\<lparr>file_id = ''b'', file_path = ''b.js'', file_type = ''.js'',
             imports_list = [''./c''], exports = [], dependencies = [], dependents = [],
             is_entry_point = True, is_leaf = True\<rparr>"
  have "case ?x of Inl _ \<Rightarrow> False | Inr _ \<Rightarrow> True"
    by code_simp
  then obtain r a' where x: "?x = Inr (r, a')"
    using sum_is_Inr by fastforce
  have "map_sum id (\<lambda>ra. nodes (fst ra)) ?x = Inr [(''b'', ?n)]"
    by code_simp
  with x have n: "(''b'', ?n) \<in> set (nodes r)"
    by simp
  have d: "distinct (map (\<lambda>kv. relative_path (snd kv)) (all_files ?a))"
    by code_simp
  have i: "''./c'' \<in> set (imports_list ?n)"
    by simp
  have t: "(''c'', js_file ''c.js'') \<in> set (all_files ?a)"
    by (simp add: DependencyAnalyzer_def twice_files_def)
  have s: "''c'' \<notin> set [''b'']"
    by simp
  have "resolve_import_path ?a ''./c'' (parent (parse_path ''b.js'')) ''.js''
          = Inr (Some ''c.js'')"
    by code_simp
  then have p: "resolve_import_path ?a ''./c'' (parent (parse_path (file_path ?n)))
                  (file_type ?n) = Inr (Some (relative_path (js_file ''c.js'')))"
    by (simp add: js_file_def)
  from out_of_selection_import [OF x d n i t s p] x show ?thesis
    by (auto simp: list_all_iff)
qed

lemma cleaned_imports_keeps:
  "imp \<in> set found \<Longrightarrow> strip imp = imp \<Longrightarrow> startswith imp CHR ''.'' \<Longrightarrow>
   imp \<in> set (cleaned_imports found)"
  by (induction found) (auto simp: Let_def)

lemma resolved_starts_with_dot:
  "resolve_import_path a imp d ft = Inr (Some p) \<Longrightarrow> startswith imp CHR ''.''"
  by (auto simp: resolve_import_path_def split: if_splits)

text \<open>
  Claim C8, as the code has it. Let the catalogue have no two entries with the same
  relative path, and let a selected Python or JavaScript file have two or more import
  statements with the same specifier (for JavaScript, a specifier without surrounding
  white space), which resolves to a catalogue file outside the selection. Then the list of
  missing dependencies has exactly one entry for this file and specifier: the extractors
  return \<open>list(set(...))\<close>, one copy of every specifier.
\<close>

theorem repeated_import_amended:
  assumes "analyze_dependencies a scan selected_files = Inr (r, a')"
    and "distinct (map (\<lambda>kv. relative_path (snd kv)) (all_files a))"
    and "fid \<in> set selected_files"
    and "map_of (all_files a) fid = Some info"
    and "2 \<le> count_list (found_imports (scan (path info))) imp"
    and "extension info = ''.py'' \<or>
         (extension info \<in> set [''.js'', ''.jsx'', ''.ts'', ''.tsx''] \<and> strip imp = imp)"
    and "(tid, tinfo) \<in> set (all_files a)"
    and "tid \<notin> set selected_files"
    and "resolve_import_path a imp (parent (parse_path (relative_path info))) (extension info)
           = Inr (Some (relative_path tinfo))"
  shows "length (filter (\<lambda>m. required_by m = fid \<and> missing_import m = imp)
                   (missing_dependencies r)) = 1"
proof -
  from result_nodes(3) [OF assms(1,3,4)] obtain node where n: "(fid, node) \<in> set (nodes r)"
    by blast
  from result_nodes(2) [OF assms(1) n] assms(4) have
    f: "file_path node = relative_path info" "file_type node = extension info"
       "imports_list node = extract_imports scan (path info) (extension info)"
    by auto
  from assms(5) have "count_list (found_imports (scan (path info))) imp \<noteq> 0"
    by simp
  then have mem: "imp \<in> set (found_imports (scan (path info)))"
    by (simp add: count_list_0_iff)
  have dot: "startswith imp CHR ''.''"
    using assms(9) by (rule resolved_starts_with_dot)
  have "imp \<in> set (extract_imports scan (path info) (extension info))"
  proof (cases "extension info = ''.py''")
    case True
    with mem show ?thesis
      by (simp add: extract_imports_def extract_python_imports_def list_of_set_def)
  next
    case False
    with assms(6) have js: "extension info \<in> set [''.js'', ''.jsx'', ''.ts'', ''.tsx'']"
      and st: "strip imp = imp"
      by blast+
    from cleaned_imports_keeps [OF mem st dot] False js show ?thesis
      by (simp add: extract_imports_def extract_javascript_imports_def list_of_set_def)
  qed
  with f have i: "imp \<in> set (imports_list node)"
    by simp
  from assms(9) f have "resolve_import_path a imp (parent (parse_path (file_path node)))
      (file_type node) = Inr (Some (relative_path tinfo))"
    by simp
  from out_of_selection_entries [OF assms(1,2) n i assms(7,8) this] show ?thesis
    by simp
qed

theorem repeated_import_amended_witness:
  "\<exists>r a'. analyze_dependencies (DependencyAnalyzer twice_files ''/proj'') twice_scan [''b'']
             = Inr (r, a') \<and>
     2 \<le> count_list (found_imports (twice_scan ''/proj/b.js'')) ''./c'' \<and>
     length (filter (\<lambda>m. required_by m = ''b'' \<and> missing_import m = ''./c'')
               (missing_dependencies r)) = 1"
proof -
  let ?a = "DependencyAnalyzer twice_files ''/proj''"
  let ?x = "analyze_dependencies ?a twice_scan [''b'']"
  let ?b = "js_file ''b.js''"
  have "case ?x of Inl _ \<Rightarrow> False | Inr _ \<Rightarrow> True"
    by code_simp
  then obtain r a' where x: "?x = Inr (r, a')"
    using sum_is_Inr by fastforce
  have d: "distinct (map (\<lambda>kv. relative_path (snd kv)) (all_files ?a))"
    by code_simp
  have s: "''b'' \<in> set [''b'']"
    by simp
  have m: "map_of (all_files ?a) ''b'' = Some ?b"
    by (simp add: DependencyAnalyzer_def twice_files_def)
  have c: "2 \<le> count_list (found_imports (twice_scan (path ?b))) ''./c''"
    by code_simp
  have e: "extension ?b = ''.py'' \<or>
         (extension ?b \<in> set [''.js'', ''.jsx'', ''.ts'', ''.tsx''] \<and> strip ''./c'' = ''./c'')"
    by code_simp
  have t: "(''c'', js_file ''c.js'') \<in> set (all_files ?a)"
    by (simp add: DependencyAnalyzer_def twice_files_def)
  have u: "''c'' \<notin> set [''b'']"
    by simp
  have p: "resolve_import_path ?a ''./c'' (parent (parse_path (relative_path ?b)))
             (extension ?b) = Inr (Some (relative_path (js_file ''c.js'')))"
    by code_simp
  have c': "2 \<le> count_list (found_imports (twice_scan ''/proj/b.js'')) ''./c''"
    by code_simp
  from repeated_import_amended [OF x d s m c e t u p] x c' show ?thesis
    by blast
qed

subsection \<open>The cycle enumerator\<close>


















subsection \<open>The graph of the analyzer\<close>

















end
